theory Spec2Isabelle
  imports Main
begin

section \<open>Data model of the Tango solver\<close>

text \<open>
  The solver of the repository is the class whose methods are listed in
  \<^verbatim>\<open>src/DIY.md\<close> (section "Solving Algorithm").  Its state is the object
  \<^verbatim>\<open>this\<close> with the matrix \<^verbatim>\<open>this.board\<close> of cells
  \<^verbatim>\<open>{ contains: CellState }\<close>, the two edge matrices
  \<^verbatim>\<open>this.edges.horizontal\<close> and \<^verbatim>\<open>this.edges.vertical\<close> of
  \<^verbatim>\<open>{ state: EdgeState }\<close>, and the globals \<^verbatim>\<open>BOARD_SIZE\<close> and
  \<^verbatim>\<open>EDGE_SIZE = BOARD_SIZE - 1\<close>.  A cell object has the single field
  \<^verbatim>\<open>contains\<close>, an edge object the single field \<^verbatim>\<open>state\<close>; each is
  represented by the value of that field.  \<^verbatim>\<open>BOARD_SIZE\<close> is the square root of
  the number of cells found on the page and is taken to be a natural number.  The
  source has no flag for a locked cell: the cells given with the puzzle are the
  ones that are not EMPTY when the solver starts.
\<close>

datatype CellState = EMPTY | SUN | MOON

text \<open>\<^verbatim>\<open>EdgeState.EMPTY\<close> of the source (no constraint) is written \<open>NONE\<close>.\<close>

datatype EdgeState = NONE | EQUAL | OPPOSITE

record solver =
  BOARD_SIZE :: nat
  board :: "CellState list list"
  horizontal :: "EdgeState list list"
  vertical :: "EdgeState list list"

definition EDGE_SIZE :: "solver \<Rightarrow> int" where
  "EDGE_SIZE st = int (BOARD_SIZE st) - 1"

text \<open>
  The arrays are built by \<^verbatim>\<open>Array(BOARD_SIZE).fill().map(...)\<close>: the board is
  \<open>BOARD_SIZE \<times> BOARD_SIZE\<close>, the horizontal edges \<open>BOARD_SIZE \<times> EDGE_SIZE\<close> and
  the vertical edges \<open>EDGE_SIZE \<times> BOARD_SIZE\<close>.  On such a state every index the
  methods below use is in range; a read out of range would raise a TypeError in
  the source and is outside this model, so the theorems assume \<open>wellFormed\<close>.
\<close>

definition wellFormed :: "solver \<Rightarrow> bool" where
  "wellFormed st \<longleftrightarrow>
     length (board st) = BOARD_SIZE st \<and>
     list_all (\<lambda>r. length r = BOARD_SIZE st) (board st) \<and>
     length (horizontal st) = BOARD_SIZE st \<and>
     list_all (\<lambda>r. length r = BOARD_SIZE st - 1) (horizontal st) \<and>
     length (vertical st) = BOARD_SIZE st - 1 \<and>
     list_all (\<lambda>r. length r = BOARD_SIZE st) (vertical st)"

text \<open>The assignment \<^verbatim>\<open>this.board[row][col].contains = v\<close>.\<close>

definition setContains :: "solver \<Rightarrow> nat \<Rightarrow> nat \<Rightarrow> CellState \<Rightarrow> solver" where
  "setContains st row col v =
     st\<lparr>board := (board st)[row := (board st ! row)[col := v]]\<rparr>"

section \<open>Constraint validation\<close>

text \<open>
  \<^verbatim>\<open>checkThreeInRowHorizontal\<close>, with the comparisons against
  \<^verbatim>\<open>BOARD_SIZE - 3\<close> and \<^verbatim>\<open>BOARD_SIZE - 1\<close> taken over the integers, as
  JavaScript evaluates them.
\<close>

definition checkThreeInRowHorizontal :: "solver \<Rightarrow> nat \<Rightarrow> nat \<Rightarrow> CellState \<Rightarrow> bool" where
  "checkThreeInRowHorizontal st row col symbol =
     (if 2 \<le> col \<and>
         board st ! row ! (col - 1) = symbol \<and>
         board st ! row ! (col - 2) = symbol then True
      else if int col \<le> int (BOARD_SIZE st) - 3 \<and>
         board st ! row ! (col + 1) = symbol \<and>
         board st ! row ! (col + 2) = symbol then True
      else if 0 < col \<and> int col < int (BOARD_SIZE st) - 1 \<and>
         board st ! row ! (col - 1) = symbol \<and>
         board st ! row ! (col + 1) = symbol then True
      else False)"

text \<open>
  Modelled from the spec: \<^verbatim>\<open>checkThreeInRowVertical\<close> is called by
  \<^verbatim>\<open>isValidPlacement\<close> but its body is not in the sources.  The spec has the
  three-in-a-row rule "row-wise and column-wise ... checked via the three sliding
  windows that include the target cell: two-before, two-after, and straddling";
  the definition is the horizontal method with rows and columns exchanged.
\<close>

definition checkThreeInRowVertical :: "solver \<Rightarrow> nat \<Rightarrow> nat \<Rightarrow> CellState \<Rightarrow> bool" where
  "checkThreeInRowVertical st row col symbol =
     (if 2 \<le> row \<and>
         board st ! (row - 1) ! col = symbol \<and>
         board st ! (row - 2) ! col = symbol then True
      else if int row \<le> int (BOARD_SIZE st) - 3 \<and>
         board st ! (row + 1) ! col = symbol \<and>
         board st ! (row + 2) ! col = symbol then True
      else if 0 < row \<and> int row < int (BOARD_SIZE st) - 1 \<and>
         board st ! (row - 1) ! col = symbol \<and>
         board st ! (row + 1) ! col = symbol then True
      else False)"

text \<open>
  Modelled from the spec: the number of cells of a row, and of a column, that hold
  a symbol, as \<^verbatim>\<open>checkRowColumnBalance\<close> (not in the sources) has to count them:
  "counted over the row/column's currently filled cells".
\<close>

definition rowCount :: "solver \<Rightarrow> nat \<Rightarrow> CellState \<Rightarrow> nat" where
  "rowCount st row symbol =
     length (filter (\<lambda>col. board st ! row ! col = symbol) [0..<BOARD_SIZE st])"

definition colCount :: "solver \<Rightarrow> nat \<Rightarrow> CellState \<Rightarrow> nat" where
  "colCount st col symbol =
     length (filter (\<lambda>row. board st ! row ! col = symbol) [0..<BOARD_SIZE st])"

text \<open>
  Modelled from the spec: \<^verbatim>\<open>checkRowColumnBalance\<close> is called by
  \<^verbatim>\<open>isValidPlacement\<close> but its body is not in the sources.  The spec: "reject
  if the row or column would exceed N/2 occurrences of symbol once placed (counted
  over the row/column's currently filled cells)".  With \<open>k\<close> occurrences now, the
  placement gives \<open>k + 1\<close>, and \<open>k + 1 > N / 2\<close> is \<open>2 * (k + 1) > N\<close>.
\<close>

definition checkRowColumnBalance :: "solver \<Rightarrow> nat \<Rightarrow> nat \<Rightarrow> CellState \<Rightarrow> bool" where
  "checkRowColumnBalance st row col symbol =
     (if BOARD_SIZE st < 2 * (rowCount st row symbol + 1) then True
      else if BOARD_SIZE st < 2 * (colCount st col symbol + 1) then True
      else False)"

text \<open>
  \<^verbatim>\<open>checkEdgeConstraints\<close>, as the source prints it: it reads the edge to the
  right of \<open>(row, col)\<close> and the cell to the right, and nothing to the left.  For
  the vertical edges the source has only the comment "Check vertical edge
  constraints (similar logic)" and no code; the model has the printed tests
  only.  The general theorems below hold whatever this method decides, and on the
  example boards every vertical edge is unset.
\<close>

definition checkEdgeConstraints :: "solver \<Rightarrow> nat \<Rightarrow> nat \<Rightarrow> CellState \<Rightarrow> bool" where
  "checkEdgeConstraints st row col symbol =
     (if int col < EDGE_SIZE st \<and>
         horizontal st ! row ! col = EQUAL \<and>
         board st ! row ! (col + 1) \<noteq> EMPTY \<and> board st ! row ! (col + 1) \<noteq> symbol then True
      else if int col < EDGE_SIZE st \<and>
         horizontal st ! row ! col = OPPOSITE \<and>
         board st ! row ! (col + 1) \<noteq> EMPTY \<and> board st ! row ! (col + 1) = symbol then True
      else False)"

definition isValidPlacement :: "solver \<Rightarrow> nat \<Rightarrow> nat \<Rightarrow> CellState \<Rightarrow> bool" where
  "isValidPlacement st row col symbol =
     (if checkThreeInRowHorizontal st row col symbol then False
      else if checkThreeInRowVertical st row col symbol then False
      else if checkRowColumnBalance st row col symbol then False
      else if checkEdgeConstraints st row col symbol then False
      else True)"

section \<open>Search\<close>

text \<open>The two nested loops of \<^verbatim>\<open>solvePuzzle\<close> that collect the EMPTY cells.\<close>

definition findEmptyCells :: "solver \<Rightarrow> (nat \<times> nat) list" where
  "findEmptyCells st =
     concat (map (\<lambda>row.
       map (\<lambda>col. (row, col))
         (filter (\<lambda>col. board st ! row ! col = EMPTY) [0..<BOARD_SIZE st]))
       [0..<BOARD_SIZE st])"

text \<open>
  Modelled from the spec: \<^verbatim>\<open>getAdjacentEmptyCells\<close> is called by the
  comparator of \<^verbatim>\<open>solvePuzzle\<close> but its body is not in the sources.  The spec
  orders the cells "by ascending count of EMPTY 4-neighbors": the method returns
  the neighbours above, below, left and right that are on the board and EMPTY.
\<close>

definition getAdjacentEmptyCells :: "solver \<Rightarrow> nat \<Rightarrow> nat \<Rightarrow> (nat \<times> nat) list" where
  "getAdjacentEmptyCells st row col =
     filter (\<lambda>(r, c). board st ! r ! c = EMPTY)
       ((if 0 < row then [(row - 1, col)] else []) @
        (if row + 1 < BOARD_SIZE st then [(row + 1, col)] else []) @
        (if 0 < col then [(row, col - 1)] else []) @
        (if col + 1 < BOARD_SIZE st then [(row, col + 1)] else []))"

type_synonym placement = "nat \<times> nat \<times> CellState"

text \<open>
  What follows a recursive call in \<^verbatim>\<open>dfs\<close>:
  \<^verbatim>\<open>if (dfs(index + 1)) return true; solution.pop(); this.board[row][col].contains = CellState.EMPTY;\<close>
  The first component says whether \<^verbatim>\<open>dfs\<close> returns here.
\<close>

definition backtrack ::
    "nat \<Rightarrow> nat \<Rightarrow> bool \<times> solver \<times> placement list \<Rightarrow> bool \<times> solver \<times> placement list" where
  "backtrack row col r =
     (case r of (ok, st, solution) \<Rightarrow>
        if ok then (True, st, solution)
        else (False, setContains st row col EMPTY, butlast solution))"

text \<open>
  The closure \<^verbatim>\<open>dfs\<close>.  It mutates \<^verbatim>\<open>this.board\<close> and the list
  \<^verbatim>\<open>solution\<close>, which are passed in and returned.  \<open>None\<close> is the TypeError of
  \<^verbatim>\<open>const [row, col] = emptyCells[index]\<close> when \<open>index\<close> is beyond the list.
\<close>

function dfs ::
    "(nat \<times> nat) list \<Rightarrow> nat \<Rightarrow> solver \<times> placement list \<Rightarrow>
       (bool \<times> solver \<times> placement list) option" where
  "dfs emptyCells index (st, solution) =
     (if index = length emptyCells then Some (True, st, solution)
      else if length emptyCells < index then None
      else
        (case emptyCells ! index of (row, col) \<Rightarrow>
          (case
             (if isValidPlacement st row col MOON
              then map_option (backtrack row col)
                     (dfs emptyCells (index + 1)
                        (setContains st row col MOON, solution @ [(row, col, MOON)]))
              else Some (False, st, solution))
           of None \<Rightarrow> None
            | Some (moonOk, st1, solution1) \<Rightarrow>
                if moonOk then Some (True, st1, solution1)
                else if isValidPlacement st1 row col SUN
                then map_option (backtrack row col)
                       (dfs emptyCells (index + 1)
                          (setContains st1 row col SUN, solution1 @ [(row, col, SUN)]))
                else Some (False, st1, solution1))))"
  by pat_completeness auto
termination
  by (relation "measure (\<lambda>(emptyCells, index, _). length emptyCells - index)") auto

text \<open>
  \<^verbatim>\<open>solvePuzzle\<close>.  \<^verbatim>\<open>Array.prototype.sort\<close> is stable and the comparator is the
  difference of two keys, so the sorted array is the stable sort by that key; the
  keys are read from the board before any placement.  The result is the returned
  value (\<open>Some solution\<close>, or \<open>None\<close> for \<^verbatim>\<open>null\<close>) with the solver as the call
  leaves it.
\<close>

definition sortedEmptyCells :: "solver \<Rightarrow> (nat \<times> nat) list" where
  "sortedEmptyCells st =
     sort_key (\<lambda>(row, col). length (getAdjacentEmptyCells st row col)) (findEmptyCells st)"

definition solvePuzzle :: "solver \<Rightarrow> (placement list option \<times> solver) option" where
  "solvePuzzle st =
     (case dfs (sortedEmptyCells st) 0 (st, []) of
        None \<Rightarrow> None
      | Some (ok, st', solution) \<Rightarrow> Some (if ok then Some solution else None, st'))"

section \<open>Notions used to state the properties\<close>

text \<open>The coordinates of a placement \<^verbatim>\<open>[row, col, symbol]\<close>.\<close>

definition coords :: "placement \<Rightarrow> nat \<times> nat" where
  "coords p = (fst p, fst (snd p))"

text \<open>The board after a list of placements has been written to it, in order.\<close>

fun applyPlacements :: "solver \<Rightarrow> placement list \<Rightarrow> solver" where
  "applyPlacements st [] = st"
| "applyPlacements st ((row, col, symbol) # zs) =
     applyPlacements (setContains st row col symbol) zs"

text \<open>The cells of the list from position \<open>i\<close> on are on the board and EMPTY.\<close>

definition openCells :: "(nat \<times> nat) list \<Rightarrow> nat \<Rightarrow> solver \<Rightarrow> bool" where
  "openCells cells i st \<longleftrightarrow>
     list_all (\<lambda>(r, c). r < length (board st) \<and> c < length (board st ! r) \<and>
                 board st ! r ! c = EMPTY)
       (drop i cells)"

text \<open>
  Every placement of the list went to a cell that was EMPTY, with MOON or SUN, and
  was accepted by \<^verbatim>\<open>isValidPlacement\<close> on the board as it was then.
\<close>

fun validRun :: "solver \<Rightarrow> placement list \<Rightarrow> bool" where
  "validRun st [] = True"
| "validRun st ((row, col, symbol) # zs) =
     (row < length (board st) \<and> col < length (board st ! row) \<and>
      board st ! row ! col = EMPTY \<and>
      (symbol = MOON \<or> symbol = SUN) \<and> isValidPlacement st row col symbol \<and>
      validRun (setContains st row col symbol) zs)"

text \<open>
  MOON was tried before SUN: wherever the list holds SUN, on the board as it was
  then MOON was either refused by \<^verbatim>\<open>isValidPlacement\<close>, or it was placed and
  the search below it returned \<^verbatim>\<open>false\<close>.
\<close>

fun moonFirst ::
    "(nat \<times> nat) list \<Rightarrow> nat \<Rightarrow> solver \<times> placement list \<Rightarrow> placement list \<Rightarrow> bool" where
  "moonFirst cells i (st, sol) [] = True"
| "moonFirst cells i (st, sol) ((row, col, symbol) # zs) =
     ((symbol = SUN \<longrightarrow>
         (\<not> isValidPlacement st row col MOON \<or>
          map_option fst
            (dfs cells (i + 1) (setContains st row col MOON, sol @ [(row, col, MOON)])) =
          Some False)) \<and>
      moonFirst cells (i + 1) (setContains st row col symbol, sol @ [(row, col, symbol)]) zs)"

text \<open>One of the two attempts of \<^verbatim>\<open>dfs\<close> at a cell, for a candidate symbol.\<close>

definition dfsTry ::
    "(nat \<times> nat) list \<Rightarrow> nat \<Rightarrow> nat \<Rightarrow> nat \<Rightarrow> CellState \<Rightarrow> solver \<Rightarrow> placement list \<Rightarrow>
       (bool \<times> solver \<times> placement list) option" where
  "dfsTry cells i row col symbol st sol =
     (if isValidPlacement st row col symbol
      then map_option (backtrack row col)
             (dfs cells (i + 1) (setContains st row col symbol, sol @ [(row, col, symbol)]))
      else Some (False, st, sol))"

text \<open>Row-major order of coordinates, and the order of the heuristic.\<close>

definition rowMajorBefore :: "nat \<times> nat \<Rightarrow> nat \<times> nat \<Rightarrow> bool" where
  "rowMajorBefore a b \<longleftrightarrow> fst a < fst b \<or> (fst a = fst b \<and> snd a < snd b)"

definition emptyNeighbours :: "solver \<Rightarrow> nat \<times> nat \<Rightarrow> nat" where
  "emptyNeighbours st p = length (getAdjacentEmptyCells st (fst p) (snd p))"

definition heuristicBefore :: "solver \<Rightarrow> nat \<times> nat \<Rightarrow> nat \<times> nat \<Rightarrow> bool" where
  "heuristicBefore st a b \<longleftrightarrow>
     emptyNeighbours st a < emptyNeighbours st b \<or>
     (emptyNeighbours st a = emptyNeighbours st b \<and> rowMajorBefore a b)"

text \<open>The rules of the puzzle on a whole board.\<close>

definition threeEqual :: "CellState \<Rightarrow> CellState \<Rightarrow> CellState \<Rightarrow> bool" where
  "threeEqual a b c \<longleftrightarrow> a \<noteq> EMPTY \<and> a = b \<and> b = c"

definition noThreeInARow :: "solver \<Rightarrow> bool" where
  "noThreeInARow st \<longleftrightarrow>
     list_all (\<lambda>i. list_all (\<lambda>j.
         \<not> threeEqual (board st ! i ! j) (board st ! i ! (j + 1)) (board st ! i ! (j + 2)) \<and>
         \<not> threeEqual (board st ! j ! i) (board st ! (j + 1) ! i) (board st ! (j + 2) ! i))
       [0..<BOARD_SIZE st - 2]) [0..<BOARD_SIZE st]"

definition withinBalance :: "solver \<Rightarrow> bool" where
  "withinBalance st \<longleftrightarrow>
     list_all (\<lambda>i.
         2 * rowCount st i SUN \<le> BOARD_SIZE st \<and> 2 * rowCount st i MOON \<le> BOARD_SIZE st \<and>
         2 * colCount st i SUN \<le> BOARD_SIZE st \<and> 2 * colCount st i MOON \<le> BOARD_SIZE st)
       [0..<BOARD_SIZE st]"

definition fullyAssigned :: "solver \<Rightarrow> bool" where
  "fullyAssigned st \<longleftrightarrow>
     list_all (\<lambda>row. list_all (\<lambda>col. board st ! row ! col \<noteq> EMPTY) [0..<BOARD_SIZE st])
       [0..<BOARD_SIZE st]"

definition balanced :: "solver \<Rightarrow> bool" where
  "balanced st \<longleftrightarrow>
     list_all (\<lambda>i.
         2 * rowCount st i SUN = BOARD_SIZE st \<and> 2 * rowCount st i MOON = BOARD_SIZE st \<and>
         2 * colCount st i SUN = BOARD_SIZE st \<and> 2 * colCount st i MOON = BOARD_SIZE st)
       [0..<BOARD_SIZE st]"

text \<open>
  The three sliding windows of the three-in-a-row rule as the specification words
  them: the two cells before the target, the two cells after it, or one cell on
  each side of it, in the row and in the column, inside the board.
\<close>

definition threeInRowWindows :: "solver \<Rightarrow> nat \<Rightarrow> nat \<Rightarrow> CellState \<Rightarrow> bool" where
  "threeInRowWindows st row col symbol \<longleftrightarrow>
     (2 \<le> col \<and> board st ! row ! (col - 2) = symbol \<and> board st ! row ! (col - 1) = symbol) \<or>
     (col + 2 < BOARD_SIZE st \<and>
        board st ! row ! (col + 1) = symbol \<and> board st ! row ! (col + 2) = symbol) \<or>
     (1 \<le> col \<and> col + 1 < BOARD_SIZE st \<and>
        board st ! row ! (col - 1) = symbol \<and> board st ! row ! (col + 1) = symbol) \<or>
     (2 \<le> row \<and> board st ! (row - 2) ! col = symbol \<and> board st ! (row - 1) ! col = symbol) \<or>
     (row + 2 < BOARD_SIZE st \<and>
        board st ! (row + 1) ! col = symbol \<and> board st ! (row + 2) ! col = symbol) \<or>
     (1 \<le> row \<and> row + 1 < BOARD_SIZE st \<and>
        board st ! (row - 1) ! col = symbol \<and> board st ! (row + 1) ! col = symbol)"

section \<open>Boards used in the examples\<close>

definition mkBoard :: "nat \<Rightarrow> CellState list list \<Rightarrow> solver" where
  "mkBoard n cells =
     \<lparr>BOARD_SIZE = n, board = cells,
      horizontal = replicate n (replicate (n - 1) NONE),
      vertical = replicate (n - 1) (replicate n NONE)\<rparr>"

text \<open>The 4 by 4 board with every cell EMPTY and no edge.\<close>

definition emptyBoard4 :: solver where
  "emptyBoard4 = mkBoard 4 (replicate 4 (replicate 4 EMPTY))"

text \<open>
  The 4 by 4 board with \<open>(0,0)\<close> given as SUN and an EQUAL edge between \<open>(0,0)\<close>
  and \<open>(0,1)\<close>.
\<close>

definition equalEdgeBoard :: solver where
  "equalEdgeBoard =
     (mkBoard 4
        [ [SUN, EMPTY, EMPTY, EMPTY], [EMPTY, EMPTY, EMPTY, EMPTY],
          [EMPTY, EMPTY, EMPTY, EMPTY], [EMPTY, EMPTY, EMPTY, EMPTY] ])
     \<lparr>horizontal :=
        [ [EQUAL, NONE, NONE], [NONE, NONE, NONE], [NONE, NONE, NONE], [NONE, NONE, NONE] ]\<rparr>"

text \<open>A 4 by 4 board whose first row is given as SUN, SUN, SUN.\<close>

definition threeSunsBoard4 :: solver where
  "threeSunsBoard4 =
     mkBoard 4
        [ [SUN, SUN, SUN, EMPTY], [EMPTY, EMPTY, EMPTY, EMPTY],
          [EMPTY, EMPTY, EMPTY, EMPTY], [EMPTY, EMPTY, EMPTY, EMPTY] ]"

text \<open>A 6 by 6 board whose first row is given as MOON, SUN, SUN, SUN, MOON, MOON.\<close>

definition threeSunsBoard6 :: solver where
  "threeSunsBoard6 =
     mkBoard 6
        [ [MOON, SUN, SUN, SUN, MOON, MOON], replicate 6 EMPTY, replicate 6 EMPTY,
          replicate 6 EMPTY, replicate 6 EMPTY, replicate 6 EMPTY ]"

definition threeSunsSolution6 :: "placement list" where
  "threeSunsSolution6 =
     [(1, 0, MOON), (1, 5, MOON), (5, 0, SUN), (5, 5, SUN), (1, 1, SUN),
      (1, 2, MOON), (1, 3, SUN), (1, 4, SUN), (2, 0, SUN), (2, 5, SUN),
      (3, 0, MOON), (3, 5, SUN), (4, 0, SUN), (4, 5, MOON), (5, 1, MOON),
      (5, 2, SUN), (5, 3, MOON), (5, 4, MOON), (2, 1, MOON), (2, 2, SUN),
      (2, 3, MOON), (2, 4, MOON), (3, 1, SUN), (3, 2, MOON), (3, 3, MOON),
      (3, 4, SUN), (4, 1, MOON), (4, 2, MOON), (4, 3, SUN), (4, 4, SUN)]"

definition threeSunsSolved6 :: solver where
  "threeSunsSolved6 =
     mkBoard 6
        [ [MOON, SUN, SUN, SUN, MOON, MOON],
          [MOON, SUN, MOON, SUN, SUN, MOON],
          [SUN, MOON, SUN, MOON, MOON, SUN],
          [MOON, SUN, MOON, MOON, SUN, SUN],
          [SUN, MOON, MOON, SUN, SUN, MOON],
          [SUN, MOON, SUN, MOON, MOON, SUN] ]"

text \<open>A 6 by 6 board whose first column is given as SUN, MOON, MOON, MOON, SUN, SUN.\<close>

definition threeMoonsBoard6 :: solver where
  "threeMoonsBoard6 =
     mkBoard 6
        [ SUN # replicate 5 EMPTY, MOON # replicate 5 EMPTY, MOON # replicate 5 EMPTY,
          MOON # replicate 5 EMPTY, SUN # replicate 5 EMPTY, SUN # replicate 5 EMPTY ]"

definition threeMoonsSolution6 :: "placement list" where
  "threeMoonsSolution6 =
     [(0, 1, MOON), (0, 5, MOON), (5, 1, MOON), (5, 5, SUN), (0, 2, MOON),
      (0, 3, SUN), (0, 4, SUN), (1, 1, SUN), (1, 5, MOON), (2, 1, MOON),
      (2, 5, SUN), (3, 1, SUN), (3, 5, SUN), (4, 1, SUN), (4, 5, MOON),
      (5, 2, SUN), (5, 3, MOON), (5, 4, MOON), (1, 2, SUN), (1, 3, MOON),
      (1, 4, SUN), (2, 2, SUN), (2, 3, SUN), (2, 4, MOON), (3, 2, MOON),
      (3, 3, MOON), (3, 4, SUN), (4, 2, MOON), (4, 3, SUN), (4, 4, MOON)]"

definition threeMoonsSolved6 :: solver where
  "threeMoonsSolved6 =
     mkBoard 6
        [ [SUN, MOON, MOON, SUN, SUN, MOON],
          [MOON, SUN, SUN, MOON, SUN, MOON],
          [MOON, MOON, SUN, SUN, MOON, SUN],
          [MOON, SUN, MOON, MOON, SUN, SUN],
          [SUN, SUN, MOON, SUN, MOON, MOON],
          [SUN, MOON, SUN, MOON, MOON, SUN] ]"

text \<open>A 3 by 3 board with one EMPTY cell.\<close>

definition oddBoard :: solver where
  "oddBoard = mkBoard 3 [ [SUN, SUN, EMPTY], [MOON, MOON, SUN], [MOON, MOON, SUN] ]"

definition oddBoardSolved :: solver where
  "oddBoardSolved = mkBoard 3 [ [SUN, SUN, MOON], [MOON, MOON, SUN], [MOON, MOON, SUN] ]"

text \<open>The 3 by 3 board with every cell EMPTY and no edge.\<close>

definition emptyBoard3 :: solver where
  "emptyBoard3 = mkBoard 3 (replicate 3 (replicate 3 EMPTY))"

definition emptySolution4 :: "placement list" where
  "emptySolution4 =
     [(0, 0, MOON), (0, 3, MOON), (3, 0, MOON), (3, 3, MOON), (0, 1, SUN),
      (0, 2, SUN), (1, 0, SUN), (1, 3, SUN), (2, 0, SUN), (2, 3, SUN),
      (3, 1, SUN), (3, 2, SUN), (1, 1, MOON), (1, 2, MOON), (2, 1, MOON),
      (2, 2, MOON)]"

definition emptySolved4 :: solver where
  "emptySolved4 =
     mkBoard 4
        [ [MOON, SUN, SUN, MOON], [SUN, MOON, MOON, SUN],
          [SUN, MOON, MOON, SUN], [MOON, SUN, SUN, MOON] ]"



definition equalEdgeSolution :: "placement list" where
  "equalEdgeSolution =
     [(0, 1, MOON), (0, 3, MOON), (1, 0, MOON), (3, 0, MOON), (3, 3, MOON),
      (0, 2, SUN), (1, 3, SUN), (2, 0, SUN), (2, 3, SUN), (3, 1, SUN),
      (3, 2, SUN), (1, 1, SUN), (1, 2, MOON), (2, 1, MOON), (2, 2, MOON)]"

definition equalEdgeSolved :: solver where
  "equalEdgeSolved =
     equalEdgeBoard\<lparr>board :=
        [ [SUN, MOON, SUN, MOON], [MOON, SUN, MOON, SUN],
          [SUN, MOON, MOON, SUN], [MOON, SUN, SUN, MOON] ]\<rparr>"

section \<open>Lemmas about the search\<close>

declare dfs.simps [simp del]

lemma dfs_step:
  assumes "i < length cells" and "cells ! i = (row, col)"
  shows "dfs cells i (st, sol) =
     (case dfsTry cells i row col MOON st sol of
        None \<Rightarrow> None
      | Some (ok, st1, sol1) \<Rightarrow>
          if ok then Some (True, st1, sol1) else dfsTry cells i row col SUN st1 sol1)"
proof -
  have a: "dfsTry cells i row col MOON st sol =
      (if isValidPlacement st row col MOON
       then map_option (backtrack row col)
              (dfs cells (i + 1) (setContains st row col MOON, sol @ [(row, col, MOON)]))
       else Some (False, st, sol))"
    by (simp only: dfsTry_def)
  have b: "\<And>st1 sol1. dfsTry cells i row col SUN st1 sol1 =
      (if isValidPlacement st1 row col SUN
       then map_option (backtrack row col)
              (dfs cells (i + 1) (setContains st1 row col SUN, sol1 @ [(row, col, SUN)]))
       else Some (False, st1, sol1))"
    by (simp only: dfsTry_def)
  show ?thesis
    apply (subst dfs.simps)
    apply (simp only: a b)
    using assms apply (simp del: map_option_case)
    done
qed

lemma dfs_base: "dfs cells (length cells) (st, sol) = Some (True, st, sol)"
  by (subst dfs.simps) simp

lemma dfs_returns: "i \<le> length cells \<Longrightarrow> dfs cells i (st, sol) \<noteq> None"
proof (induction "length cells - i" arbitrary: i st sol)
  case 0
  then have "i = length cells" by simp
  then show ?case by (simp add: dfs_base del: not_None_eq)
next
  case (Suc k)
  then have lt: "i < length cells" by simp
  obtain row col where rc: "cells ! i = (row, col)" by (cases "cells ! i")
  have IH: "\<And>st sol. dfs cells (i + 1) (st, sol) \<noteq> None"
    using Suc.hyps(1)[of "i + 1"] Suc.hyps(2) lt by simp
  have T: "\<And>symbol st sol. dfsTry cells i row col symbol st sol \<noteq> None"
    using IH by (simp add: dfsTry_def del: not_None_eq)
  obtain ok st1 sol1 where m: "dfsTry cells i row col MOON st sol = Some (ok, st1, sol1)"
    using T by (metis not_None_eq prod_cases3)
  show ?case
    using T by (simp add: dfs_step[OF lt rc] m del: not_None_eq)
qed

lemma setContains_fields [simp]:
  "BOARD_SIZE (setContains st row col v) = BOARD_SIZE st"
  "horizontal (setContains st row col v) = horizontal st"
  "vertical (setContains st row col v) = vertical st"
  "length (board (setContains st row col v)) = length (board st)"
  "length (board (setContains st row col v) ! r) = length (board st ! r)"
proof -
  show "BOARD_SIZE (setContains st row col v) = BOARD_SIZE st"
    "horizontal (setContains st row col v) = horizontal st"
    "vertical (setContains st row col v) = vertical st"
    "length (board (setContains st row col v)) = length (board st)"
    by (simp_all add: setContains_def)
  show "length (board (setContains st row col v) ! r) = length (board st ! r)"
    by (cases "row < length (board st)"; cases "r = row") (simp_all add: setContains_def list_update_beyond)
qed

lemma setContains_nth:
  "row < length (board st) \<Longrightarrow> col < length (board st ! row) \<Longrightarrow>
   board (setContains st row col v) ! r ! c =
     (if r = row \<and> c = col then v else board st ! r ! c)"
  by (auto simp: setContains_def nth_list_update)

lemma setContains_undo:
  "row < length (board st) \<Longrightarrow> col < length (board st ! row) \<Longrightarrow> board st ! row ! col = EMPTY \<Longrightarrow>
   setContains (setContains st row col v) row col EMPTY = st"
proof -
  assume a: "row < length (board st)" "col < length (board st ! row)" "board st ! row ! col = EMPTY"
  have "(board st ! row)[col := EMPTY] = board st ! row"
    using a(3) by (metis list_update_id)
  then show ?thesis
    using a(1) by (simp add: setContains_def list_update_same_conv)
qed

lemma openCells_step:
  assumes "distinct cells" "i < length cells" "cells ! i = (row, col)" "openCells cells i st"
  shows "openCells cells (i + 1) (setContains st row col v)"
    and "row < length (board st)" and "col < length (board st ! row)" and "board st ! row ! col = EMPTY"
proof -
  have d: "drop i cells = (row, col) # drop (Suc i) cells"
    using assms(2,3) by (metis Cons_nth_drop_Suc)
  from assms(4) show rowlt: "row < length (board st)" and collt: "col < length (board st ! row)"
    and "board st ! row ! col = EMPTY"
    by (simp_all add: openCells_def d)
  have "distinct (drop i cells)" using assms(1) by simp
  then have notin: "(row, col) \<notin> set (drop (Suc i) cells)" by (simp add: d)
  show "openCells cells (i + 1) (setContains st row col v)"
    using assms(4) notin rowlt collt
    by (auto simp: openCells_def d list_all_iff setContains_nth)
qed

lemma coords_simp [simp]: "coords (row, col, symbol) = (row, col)"
  by (simp add: coords_def)

lemma dfs_shape:
  assumes d: "distinct cells"
  shows "i \<le> length cells \<Longrightarrow> openCells cells i st \<Longrightarrow>
         dfs cells i (st, sol) = Some (ok, st', sol') \<Longrightarrow>
     (ok \<longrightarrow> (\<exists>zs. sol' = sol @ zs \<and> map coords zs = drop i cells \<and>
                  st' = applyPlacements st zs \<and> validRun st zs \<and>
                  moonFirst cells i (st, sol) zs)) \<and>
     (\<not> ok \<longrightarrow> st' = st \<and> sol' = sol)"
proof (induction "length cells - i" arbitrary: i st sol ok st' sol')
  case 0
  then have "i = length cells" by simp
  with "0.prems"(3) show ?case by (simp add: dfs_base)
next
  case (Suc k)
  from Suc.hyps(2) have lt: "i < length cells" by simp
  obtain row col where rc: "cells ! i = (row, col)" by (cases "cells ! i")
  note oc = openCells_step[OF d lt rc Suc.prems(2)]
  have dr: "drop i cells = (row, col) # drop (i + 1) cells"
    using lt rc by (metis Cons_nth_drop_Suc Suc_eq_plus1)
  have IH: "\<And>st sol ok st' sol'. openCells cells (i + 1) st \<Longrightarrow>
         dfs cells (i + 1) (st, sol) = Some (ok, st', sol') \<Longrightarrow>
     (ok \<longrightarrow> (\<exists>zs. sol' = sol @ zs \<and> map coords zs = drop (i + 1) cells \<and>
                  st' = applyPlacements st zs \<and> validRun st zs \<and>
                  moonFirst cells (i + 1) (st, sol) zs)) \<and>
     (\<not> ok \<longrightarrow> st' = st \<and> sol' = sol)"
    using Suc.hyps(1)[of "i + 1"] Suc.hyps(2) lt by simp
  have TRY: "(ok1 \<longrightarrow> isValidPlacement st row col symbol \<and>
        (\<exists>zs. sol1 = sol @ (row, col, symbol) # zs \<and> map coords zs = drop (i + 1) cells \<and>
            st1 = applyPlacements (setContains st row col symbol) zs \<and>
            validRun (setContains st row col symbol) zs \<and>
            moonFirst cells (i + 1) (setContains st row col symbol, sol @ [(row, col, symbol)]) zs)) \<and>
      (\<not> ok1 \<longrightarrow> st1 = st \<and> sol1 = sol \<and>
        (isValidPlacement st row col symbol \<longrightarrow>
           map_option fst (dfs cells (i + 1)
              (setContains st row col symbol, sol @ [(row, col, symbol)])) = Some False))"
    if t: "dfsTry cells i row col symbol st sol = Some (ok1, st1, sol1)"
    for symbol ok1 st1 sol1
  proof (cases "isValidPlacement st row col symbol")
    case False
    with t show ?thesis by (simp add: dfsTry_def)
  next
    case True
    with t obtain r where r: "dfs cells (i + 1)
        (setContains st row col symbol, sol @ [(row, col, symbol)]) = Some r"
      and br: "backtrack row col r = (ok1, st1, sol1)"
      by (auto simp: dfsTry_def)
    obtain ok2 st2 sol2 where r2: "r = (ok2, st2, sol2)" by (cases r)
    note ih = IH[OF oc(1)[of symbol] r[unfolded r2]]
    show ?thesis
    proof (cases ok2)
      case True
      with br r2 have "ok1" "st1 = st2" "sol1 = sol2" by (simp_all add: backtrack_def)
      with ih True \<open>isValidPlacement st row col symbol\<close> show ?thesis by auto
    next
      case False
      with ih have e: "st2 = setContains st row col symbol" "sol2 = sol @ [(row, col, symbol)]"
        by simp_all
      from False br r2 have "\<not> ok1" "st1 = setContains st2 row col EMPTY" "sol1 = butlast sol2"
        by (simp_all add: backtrack_def)
      then show ?thesis
        using e r r2 False setContains_undo[OF oc(2) oc(3) oc(4)] by simp
    qed
  qed
  from dfs_returns[of i cells st sol] lt Suc.prems(3)
  obtain okM stM solM where m: "dfsTry cells i row col MOON st sol = Some (okM, stM, solM)"
    by (auto simp: dfs_step[OF lt rc] split: option.splits)
  note tm = TRY[OF m]
  show ?case
  proof (cases okM)
    case True
    with Suc.prems(3) m have res: "ok" "st' = stM" "sol' = solM"
      by (simp_all add: dfs_step[OF lt rc])
    from tm True obtain zs where zs: "solM = sol @ (row, col, MOON) # zs"
      "map coords zs = drop (i + 1) cells"
      "stM = applyPlacements (setContains st row col MOON) zs"
      "validRun (setContains st row col MOON) zs"
      "moonFirst cells (i + 1) (setContains st row col MOON, sol @ [(row, col, MOON)]) zs"
      and v: "isValidPlacement st row col MOON"
      by blast
    have "sol' = sol @ ((row, col, MOON) # zs) \<and> map coords ((row, col, MOON) # zs) = drop i cells \<and>
        st' = applyPlacements st ((row, col, MOON) # zs) \<and> validRun st ((row, col, MOON) # zs) \<and>
        moonFirst cells i (st, sol) ((row, col, MOON) # zs)"
      using zs v res oc(2,3,4) dr by simp
    then show ?thesis using res(1) by blast
  next
    case False
    with tm have e: "stM = st" "solM = sol"
      and mf: "isValidPlacement st row col MOON \<longrightarrow>
           map_option fst (dfs cells (i + 1)
              (setContains st row col MOON, sol @ [(row, col, MOON)])) = Some False"
      by simp_all
    from Suc.prems(3) m False e
    have s: "dfsTry cells i row col SUN st sol = Some (ok, st', sol')"
      by (simp add: dfs_step[OF lt rc])
    note ts = TRY[OF s]
    show ?thesis
    proof (cases ok)
      case False
      with ts show ?thesis by simp
    next
      case True
      with ts obtain zs where zs: "sol' = sol @ (row, col, SUN) # zs"
        "map coords zs = drop (i + 1) cells"
        "st' = applyPlacements (setContains st row col SUN) zs"
        "validRun (setContains st row col SUN) zs"
        "moonFirst cells (i + 1) (setContains st row col SUN, sol @ [(row, col, SUN)]) zs"
        and v: "isValidPlacement st row col SUN"
        by blast
      have "sol' = sol @ ((row, col, SUN) # zs) \<and> map coords ((row, col, SUN) # zs) = drop i cells \<and>
          st' = applyPlacements st ((row, col, SUN) # zs) \<and> validRun st ((row, col, SUN) # zs) \<and>
          moonFirst cells i (st, sol) ((row, col, SUN) # zs)"
        using zs v mf oc(2,3,4) dr by auto
      then show ?thesis using True by blast
    qed
  qed
qed

lemma sortedEmptyCells_alt:
  "sortedEmptyCells st = sort_key (emptyNeighbours st) (findEmptyCells st)"
proof -
  have "(\<lambda>(row, col). length (getAdjacentEmptyCells st row col)) = emptyNeighbours st"
    by (auto simp: emptyNeighbours_def fun_eq_iff)
  then show ?thesis by (simp add: sortedEmptyCells_def)
qed

lemma rowMajor_concat:
  "sorted_wrt (<) rs \<Longrightarrow> sorted_wrt (<) cs \<Longrightarrow>
   sorted_wrt rowMajorBefore
     (concat (map (\<lambda>row. map (\<lambda>col. (row, col)) (filter (P row) cs)) rs))"
proof (induction rs)
  case Nil
  then show ?case by simp
next
  case (Cons r rs)
  have "sorted_wrt (<) (filter (P r) cs)"
    using Cons.prems(2) by (simp add: sorted_wrt_filter)
  then have a: "sorted_wrt rowMajorBefore (map (\<lambda>col. (r, col)) (filter (P r) cs))"
    by (simp add: sorted_wrt_map rowMajorBefore_def)
  from Cons have b: "sorted_wrt rowMajorBefore
     (concat (map (\<lambda>row. map (\<lambda>col. (row, col)) (filter (P row) cs)) rs))"
    by simp
  from Cons.prems(1) have "\<forall>y\<in>set rs. r < y" by simp
  then have c: "\<forall>p\<in>set (map (\<lambda>col. (r, col)) (filter (P r) cs)).
      \<forall>q\<in>set (concat (map (\<lambda>row. map (\<lambda>col. (row, col)) (filter (P row) cs)) rs)).
        rowMajorBefore p q"
    by (auto simp: rowMajorBefore_def)
  show ?case
    using a b c by (simp add: sorted_wrt_append)
qed

lemma findEmptyCells_rowMajor: "sorted_wrt rowMajorBefore (findEmptyCells st)"
  unfolding findEmptyCells_def by (rule rowMajor_concat) simp_all

lemma sorted_wrt_irrefl_distinct:
  "sorted_wrt R xs \<Longrightarrow> (\<And>x. \<not> R x x) \<Longrightarrow> distinct xs"
  by (induction xs) auto

lemma findEmptyCells_distinct: "distinct (findEmptyCells st)"
  by (rule sorted_wrt_irrefl_distinct[OF findEmptyCells_rowMajor]) (simp add: rowMajorBefore_def)

lemma findEmptyCells_set:
  "set (findEmptyCells st) =
     {(r, c). r < BOARD_SIZE st \<and> c < BOARD_SIZE st \<and> board st ! r ! c = EMPTY}"
  by (auto simp: findEmptyCells_def)

lemma insort_heuristic:
  "sorted_wrt (heuristicBefore st) ys \<Longrightarrow> \<forall>y\<in>set ys. rowMajorBefore x y \<Longrightarrow>
   sorted_wrt (heuristicBefore st) (insort_key (emptyNeighbours st) x ys)"
proof (induction ys)
  case Nil
  then show ?case by simp
next
  case (Cons y ys)
  show ?case
  proof (cases "emptyNeighbours st x \<le> emptyNeighbours st y")
    case True
    have "heuristicBefore st x z" if "z \<in> set (y # ys)" for z
    proof -
      have "emptyNeighbours st y \<le> emptyNeighbours st z"
        using that Cons.prems(1) by (auto simp: heuristicBefore_def)
      with True have "emptyNeighbours st x \<le> emptyNeighbours st z" by simp
      moreover have "rowMajorBefore x z" using that Cons.prems(2) by auto
      ultimately show ?thesis by (auto simp: heuristicBefore_def)
    qed
    with True Cons.prems(1) show ?thesis by simp
  next
    case False
    then have "heuristicBefore st y x" by (simp add: heuristicBefore_def)
    moreover have "sorted_wrt (heuristicBefore st) (insort_key (emptyNeighbours st) x ys)"
      using Cons by simp
    ultimately show ?thesis
      using False Cons.prems(1) by (auto simp: set_insort_key)
  qed
qed

lemma sort_key_heuristic:
  "sorted_wrt rowMajorBefore xs \<Longrightarrow>
   sorted_wrt (heuristicBefore st) (sort_key (emptyNeighbours st) xs)"
  by (induction xs) (simp_all add: insort_heuristic)

lemma sortedEmptyCells_heuristic: "sorted_wrt (heuristicBefore st) (sortedEmptyCells st)"
  by (simp add: sortedEmptyCells_alt sort_key_heuristic findEmptyCells_rowMajor)

lemma sortedEmptyCells_distinct: "distinct (sortedEmptyCells st)"
  by (simp add: sortedEmptyCells_alt findEmptyCells_distinct)

lemma sortedEmptyCells_set:
  "set (sortedEmptyCells st) =
     {(r, c). r < BOARD_SIZE st \<and> c < BOARD_SIZE st \<and> board st ! r ! c = EMPTY}"
  by (simp add: sortedEmptyCells_alt findEmptyCells_set)

lemma wellFormed_row: "wellFormed st \<Longrightarrow> r < BOARD_SIZE st \<Longrightarrow> length (board st ! r) = BOARD_SIZE st"
  by (simp add: wellFormed_def list_all_length)

lemma wellFormed_rows: "wellFormed st \<Longrightarrow> length (board st) = BOARD_SIZE st"
  by (simp add: wellFormed_def)

lemma sortedEmptyCells_open:
  "wellFormed st \<Longrightarrow> openCells (sortedEmptyCells st) 0 st"
  by (auto simp: openCells_def list_all_iff sortedEmptyCells_set wellFormed_row wellFormed_rows)

lemma solvePuzzle_cases:
  assumes wf: "wellFormed st" and s: "solvePuzzle st = Some (r, st')"
  shows "(r = None \<and> st' = st) \<or>
         (\<exists>sol. r = Some sol \<and> map coords sol = sortedEmptyCells st \<and>
            st' = applyPlacements st sol \<and> validRun st sol \<and>
            moonFirst (sortedEmptyCells st) 0 (st, []) sol)"
proof -
  from s obtain ok sol' where
    d: "dfs (sortedEmptyCells st) 0 (st, []) = Some (ok, st', sol')"
    and r: "r = (if ok then Some sol' else None)"
    by (auto simp: solvePuzzle_def split: option.splits)
  from dfs_shape[OF sortedEmptyCells_distinct _ sortedEmptyCells_open[OF wf] d]
  show ?thesis using r by (cases ok) auto
qed

lemma wellFormed_setContains: "wellFormed st \<Longrightarrow> wellFormed (setContains st row col v)"
  by (simp add: wellFormed_def list_all_length)

lemma noThreeInARow_iff:
  "noThreeInARow st \<longleftrightarrow>
     (\<forall>i j. i < BOARD_SIZE st \<and> j + 2 < BOARD_SIZE st \<longrightarrow>
        \<not> threeEqual (board st ! i ! j) (board st ! i ! (j + 1)) (board st ! i ! (j + 2)) \<and>
        \<not> threeEqual (board st ! j ! i) (board st ! (j + 1) ! i) (board st ! (j + 2) ! i))"
  by (auto simp: noThreeInARow_def list_all_iff)

lemma window_update:
  fixes f g :: "nat \<Rightarrow> CellState"
  assumes old: "\<not> threeEqual (f j) (f (j + 1)) (f (j + 2))"
    and h1: "2 \<le> c \<Longrightarrow> \<not> (f (c - 1) = s \<and> f (c - 2) = s)"
    and h2: "c + 2 < n \<Longrightarrow> \<not> (f (c + 1) = s \<and> f (c + 2) = s)"
    and h3: "0 < c \<Longrightarrow> c + 1 < n \<Longrightarrow> \<not> (f (c - 1) = s \<and> f (c + 1) = s)"
    and j: "j + 2 < n"
    and g: "\<And>k. g k = (if k = c then s else f k)"
  shows "\<not> threeEqual (g j) (g (j + 1)) (g (j + 2))"
proof -
  consider "c = j" | "c = j + 1" | "c = j + 2" | "c \<noteq> j" "c \<noteq> j + 1" "c \<noteq> j + 2"
    by blast
  then show ?thesis
  proof cases
    case 1
    with h2 j show ?thesis by (auto simp: g threeEqual_def)
  next
    case 2
    with h3 j show ?thesis by (auto simp: g threeEqual_def)
  next
    case 3
    with h1 j have "\<not> (f (j + 1) = s \<and> f j = s)" by simp
    with 3 show ?thesis by (auto simp: g threeEqual_def)
  next
    case 4
    with old show ?thesis by (simp add: g)
  qed
qed

lemma noThree_setContains:
  assumes wf: "wellFormed st" and r: "row < BOARD_SIZE st" and c: "col < BOARD_SIZE st"
    and h: "\<not> checkThreeInRowHorizontal st row col symbol"
    and v: "\<not> checkThreeInRowVertical st row col symbol"
    and inv: "noThreeInARow st"
  shows "noThreeInARow (setContains st row col symbol)"
proof -
  have rl: "row < length (board st)" and cl: "col < length (board st ! row)"
    using wf r c by (simp_all add: wellFormed_rows wellFormed_row)
  note nth = setContains_nth[OF rl cl]
  have "\<not> threeEqual (board (setContains st row col symbol) ! i ! j)
          (board (setContains st row col symbol) ! i ! (j + 1))
          (board (setContains st row col symbol) ! i ! (j + 2))"
    if "i < BOARD_SIZE st" "j + 2 < BOARD_SIZE st" for i j
  proof (cases "i = row")
    case False
    with inv that show ?thesis by (simp add: noThreeInARow_iff nth)
  next
    case True
    show ?thesis
    proof (rule window_update[where f = "\<lambda>k. board st ! row ! k" and c = col and s = symbol
          and n = "BOARD_SIZE st"])
      show "\<not> threeEqual (board st ! row ! j) (board st ! row ! (j + 1)) (board st ! row ! (j + 2))"
        using inv that True by (simp add: noThreeInARow_iff)
      show "2 \<le> col \<Longrightarrow> \<not> (board st ! row ! (col - 1) = symbol \<and> board st ! row ! (col - 2) = symbol)"
        using h by (auto simp: checkThreeInRowHorizontal_def split: if_splits)
      show "col + 2 < BOARD_SIZE st \<Longrightarrow>
          \<not> (board st ! row ! (col + 1) = symbol \<and> board st ! row ! (col + 2) = symbol)"
        using h by (auto simp: checkThreeInRowHorizontal_def split: if_splits)
      show "0 < col \<Longrightarrow> col + 1 < BOARD_SIZE st \<Longrightarrow>
          \<not> (board st ! row ! (col - 1) = symbol \<and> board st ! row ! (col + 1) = symbol)"
        using h by (auto simp: checkThreeInRowHorizontal_def split: if_splits)
      show "j + 2 < BOARD_SIZE st" by (rule that)
      show "board (setContains st row col symbol) ! i ! k =
          (if k = col then symbol else board st ! row ! k)" for k
        using True by (simp add: nth)
    qed
  qed
  moreover
  have "\<not> threeEqual (board (setContains st row col symbol) ! j ! i)
          (board (setContains st row col symbol) ! (j + 1) ! i)
          (board (setContains st row col symbol) ! (j + 2) ! i)"
    if "i < BOARD_SIZE st" "j + 2 < BOARD_SIZE st" for i j
  proof (cases "i = col")
    case False
    with inv that show ?thesis by (simp add: noThreeInARow_iff nth)
  next
    case True
    show ?thesis
    proof (rule window_update[where f = "\<lambda>k. board st ! k ! col" and c = row and s = symbol
          and n = "BOARD_SIZE st" and g = "\<lambda>k. board (setContains st row col symbol) ! k ! i"])
      show "\<not> threeEqual (board st ! j ! col) (board st ! (j + 1) ! col) (board st ! (j + 2) ! col)"
        using inv that True by (simp add: noThreeInARow_iff)
      show "2 \<le> row \<Longrightarrow> \<not> (board st ! (row - 1) ! col = symbol \<and> board st ! (row - 2) ! col = symbol)"
        using v by (auto simp: checkThreeInRowVertical_def split: if_splits)
      show "row + 2 < BOARD_SIZE st \<Longrightarrow>
          \<not> (board st ! (row + 1) ! col = symbol \<and> board st ! (row + 2) ! col = symbol)"
        using v by (auto simp: checkThreeInRowVertical_def split: if_splits)
      show "0 < row \<Longrightarrow> row + 1 < BOARD_SIZE st \<Longrightarrow>
          \<not> (board st ! (row - 1) ! col = symbol \<and> board st ! (row + 1) ! col = symbol)"
        using v by (auto simp: checkThreeInRowVertical_def split: if_splits)
      show "j + 2 < BOARD_SIZE st" by (rule that)
      show "board (setContains st row col symbol) ! k ! i =
          (if k = row then symbol else board st ! k ! col)" for k
        using True by (simp add: nth)
    qed
  qed
  ultimately show ?thesis by (simp add: noThreeInARow_iff)
qed

lemma count_same:
  "(\<And>j. j < n \<Longrightarrow> Q j = P j) \<Longrightarrow> length (filter Q [0..<n]) = length (filter P [0..<n])"
  by (rule arg_cong[where f = length], rule filter_cong) auto

lemma count_new:
  assumes "c < n" "\<not> P c" "Q c" "\<And>j. j \<noteq> c \<Longrightarrow> Q j = P j"
  shows "length (filter Q [0..<n]) = Suc (length (filter P [0..<n]))"
proof -
  have "{i. i < n \<and> Q i} = insert c {i. i < n \<and> P i}"
  proof (rule set_eqI)
    fix x
    show "x \<in> {i. i < n \<and> Q i} \<longleftrightarrow> x \<in> insert c {i. i < n \<and> P i}"
      using assms by (cases "x = c") auto
  qed
  moreover have "c \<notin> {i. i < n \<and> P i}" using assms(2) by simp
  moreover have "finite {i. i < n \<and> P i}" by simp
  ultimately have "card {i. i < n \<and> Q i} = Suc (card {i. i < n \<and> P i})"
    by simp
  moreover have "length (filter R [0..<n]) = card {i. i < n \<and> R i}" for R
  proof -
    have "{i. i < length [0..<n] \<and> R ([0..<n] ! i)} = {i. i < n \<and> R i}" by auto
    then show ?thesis by (simp only: length_filter_conv_card)
  qed
  ultimately show ?thesis by simp
qed

lemma rowCount_setContains:
  assumes "wellFormed st" "row < BOARD_SIZE st" "col < BOARD_SIZE st"
    "board st ! row ! col = EMPTY" "sy \<noteq> EMPTY"
  shows "rowCount (setContains st row col s) r sy =
           (if r = row \<and> sy = s then Suc (rowCount st r sy) else rowCount st r sy)"
proof -
  have rl: "row < length (board st)" and cl: "col < length (board st ! row)"
    using assms by (simp_all add: wellFormed_rows wellFormed_row)
  note nth = setContains_nth[OF rl cl]
  show ?thesis
  proof (cases "r = row \<and> sy = s")
    case True
    have "length (filter (\<lambda>j. board (setContains st row col s) ! r ! j = sy) [0..<BOARD_SIZE st]) =
        Suc (length (filter (\<lambda>j. board st ! r ! j = sy) [0..<BOARD_SIZE st]))"
      by (rule count_new[where c = col]) (use True assms in \<open>auto simp: nth\<close>)
    with True show ?thesis by (simp add: rowCount_def)
  next
    case False
    have "length (filter (\<lambda>j. board (setContains st row col s) ! r ! j = sy) [0..<BOARD_SIZE st]) =
        length (filter (\<lambda>j. board st ! r ! j = sy) [0..<BOARD_SIZE st])"
      by (rule count_same) (use False assms in \<open>auto simp: nth\<close>)
    with False show ?thesis by (simp add: rowCount_def)
  qed
qed

lemma colCount_setContains:
  assumes "wellFormed st" "row < BOARD_SIZE st" "col < BOARD_SIZE st"
    "board st ! row ! col = EMPTY" "sy \<noteq> EMPTY"
  shows "colCount (setContains st row col s) c sy =
           (if c = col \<and> sy = s then Suc (colCount st c sy) else colCount st c sy)"
proof -
  have rl: "row < length (board st)" and cl: "col < length (board st ! row)"
    using assms by (simp_all add: wellFormed_rows wellFormed_row)
  note nth = setContains_nth[OF rl cl]
  show ?thesis
  proof (cases "c = col \<and> sy = s")
    case True
    have "length (filter (\<lambda>j. board (setContains st row col s) ! j ! c = sy) [0..<BOARD_SIZE st]) =
        Suc (length (filter (\<lambda>j. board st ! j ! c = sy) [0..<BOARD_SIZE st]))"
      by (rule count_new[where c = row]) (use True assms in \<open>auto simp: nth\<close>)
    with True show ?thesis by (simp add: colCount_def)
  next
    case False
    have "length (filter (\<lambda>j. board (setContains st row col s) ! j ! c = sy) [0..<BOARD_SIZE st]) =
        length (filter (\<lambda>j. board st ! j ! c = sy) [0..<BOARD_SIZE st])"
      by (rule count_same) (use False assms in \<open>auto simp: nth\<close>)
    with False show ?thesis by (simp add: colCount_def)
  qed
qed

lemma withinBalance_iff:
  "withinBalance st \<longleftrightarrow>
     (\<forall>i<BOARD_SIZE st. \<forall>sy. sy \<noteq> EMPTY \<longrightarrow>
        2 * rowCount st i sy \<le> BOARD_SIZE st \<and> 2 * colCount st i sy \<le> BOARD_SIZE st)"
proof -
  have "(\<forall>sy. sy \<noteq> EMPTY \<longrightarrow> Q sy) \<longleftrightarrow> Q SUN \<and> Q MOON" for Q
    by (metis CellState.exhaust CellState.distinct(1,3))
  then show ?thesis
    by (auto simp: withinBalance_def list_all_iff)
qed

lemma withinBalance_setContains:
  assumes wf: "wellFormed st" and r: "row < BOARD_SIZE st" and c: "col < BOARD_SIZE st"
    and e: "board st ! row ! col = EMPTY" and s: "symbol \<noteq> EMPTY"
    and b: "\<not> checkRowColumnBalance st row col symbol"
    and inv: "withinBalance st"
  shows "withinBalance (setContains st row col symbol)"
proof -
  from b have b1: "2 * Suc (rowCount st row symbol) \<le> BOARD_SIZE st"
    and b2: "2 * Suc (colCount st col symbol) \<le> BOARD_SIZE st"
    by (auto simp: checkRowColumnBalance_def split: if_splits)
  show ?thesis
    unfolding withinBalance_iff
    using inv[unfolded withinBalance_iff] b1 b2
    by (auto simp: rowCount_setContains[OF wf r c e] colCount_setContains[OF wf r c e])
qed

lemma validRun_invariants:
  "wellFormed st \<Longrightarrow> validRun st zs \<Longrightarrow> noThreeInARow st \<Longrightarrow> withinBalance st \<Longrightarrow>
   noThreeInARow (applyPlacements st zs) \<and> withinBalance (applyPlacements st zs)"
proof (induction zs arbitrary: st)
  case Nil
  then show ?case by simp
next
  case (Cons z zs)
  obtain row col symbol where z: "z = (row, col, symbol)" by (cases z)
  from Cons.prems(2) z have rl: "row < length (board st)" and cl: "col < length (board st ! row)"
    and e: "board st ! row ! col = EMPTY" and s: "symbol \<noteq> EMPTY"
    and v: "isValidPlacement st row col symbol"
    and rest: "validRun (setContains st row col symbol) zs"
    by auto
  from rl cl Cons.prems(1) have r: "row < BOARD_SIZE st" and c: "col < BOARD_SIZE st"
    by (simp_all add: wellFormed_rows wellFormed_row)
  from v have h: "\<not> checkThreeInRowHorizontal st row col symbol"
    and vv: "\<not> checkThreeInRowVertical st row col symbol"
    and b: "\<not> checkRowColumnBalance st row col symbol"
    by (auto simp: isValidPlacement_def split: if_splits)
  have "noThreeInARow (setContains st row col symbol)"
    by (rule noThree_setContains[OF Cons.prems(1) r c h vv Cons.prems(3)])
  moreover have "withinBalance (setContains st row col symbol)"
    by (rule withinBalance_setContains[OF Cons.prems(1) r c e s b Cons.prems(4)])
  ultimately show ?case
    using Cons.IH[OF wellFormed_setContains[OF Cons.prems(1)] rest] z by simp
qed

lemma applyPlacements_fields [simp]:
  "BOARD_SIZE (applyPlacements st zs) = BOARD_SIZE st"
  "horizontal (applyPlacements st zs) = horizontal st"
  "vertical (applyPlacements st zs) = vertical st"
  by (induction st zs rule: applyPlacements.induct) simp_all

lemma wellFormed_applyPlacements: "wellFormed st \<Longrightarrow> wellFormed (applyPlacements st zs)"
  by (induction st zs rule: applyPlacements.induct) (simp_all add: wellFormed_setContains)

lemma applyPlacements_other:
  "validRun st zs \<Longrightarrow> (r, c) \<notin> set (map coords zs) \<Longrightarrow>
   board (applyPlacements st zs) ! r ! c = board st ! r ! c"
proof (induction st zs rule: applyPlacements.induct)
  case (1 st)
  then show ?case by simp
next
  case (2 st row col symbol zs)
  then show ?case by (auto simp: setContains_nth)
qed

lemma applyPlacements_placed:
  "validRun st zs \<Longrightarrow> distinct (map coords zs) \<Longrightarrow> (r, c, s) \<in> set zs \<Longrightarrow>
   board (applyPlacements st zs) ! r ! c = s"
proof (induction st zs rule: applyPlacements.induct)
  case (1 st)
  then show ?case by simp
next
  case (2 st row col symbol zs)
  show ?case
  proof (cases "(r, c, s) = (row, col, symbol)")
    case True
    with 2 have "(r, c) \<notin> set (map coords zs)" by auto
    with 2 True show ?thesis by (simp add: applyPlacements_other setContains_nth)
  next
    case False
    with 2 show ?thesis by auto
  qed
qed

lemma validRun_symbols: "validRun st zs \<Longrightarrow> (r, c, s) \<in> set zs \<Longrightarrow> s = MOON \<or> s = SUN"
  by (induction st zs rule: validRun.induct) auto

lemma no_empty_counts:
  assumes "\<And>j. j < n \<Longrightarrow> f j \<noteq> EMPTY"
  shows "length (filter (\<lambda>j. f j = SUN) [0..<n]) + length (filter (\<lambda>j. f j = MOON) [0..<n]) = n"
proof -
  have "filter (\<lambda>j. f j = MOON) [0..<n] = filter (\<lambda>j. \<not> f j = SUN) [0..<n]"
    by (rule filter_cong) (use assms in \<open>auto intro: CellState.exhaust\<close>)
  then show ?thesis
    using sum_length_filter_compl[of "\<lambda>j. f j = SUN" "[0..<n]"] by simp
qed

lemma fullyAssigned_iff:
  "fullyAssigned st \<longleftrightarrow> (\<forall>r<BOARD_SIZE st. \<forall>c<BOARD_SIZE st. board st ! r ! c \<noteq> EMPTY)"
  by (auto simp: fullyAssigned_def list_all_iff)

lemma balanced_final:
  assumes f: "fullyAssigned st" and w: "withinBalance st"
  shows "balanced st"
proof -
  have "2 * rowCount st i SUN = BOARD_SIZE st \<and> 2 * rowCount st i MOON = BOARD_SIZE st \<and>
        2 * colCount st i SUN = BOARD_SIZE st \<and> 2 * colCount st i MOON = BOARD_SIZE st"
    if i: "i < BOARD_SIZE st" for i
  proof -
    have "rowCount st i SUN + rowCount st i MOON = BOARD_SIZE st"
      unfolding rowCount_def by (rule no_empty_counts) (use f i in \<open>simp add: fullyAssigned_iff\<close>)
    moreover have "colCount st i SUN + colCount st i MOON = BOARD_SIZE st"
      unfolding colCount_def by (rule no_empty_counts) (use f i in \<open>simp add: fullyAssigned_iff\<close>)
    moreover from w i have "2 * rowCount st i SUN \<le> BOARD_SIZE st" "2 * rowCount st i MOON \<le> BOARD_SIZE st"
      "2 * colCount st i SUN \<le> BOARD_SIZE st" "2 * colCount st i MOON \<le> BOARD_SIZE st"
      by (simp_all add: withinBalance_iff)
    ultimately show ?thesis by linarith
  qed
  then show ?thesis by (simp add: balanced_def list_all_iff)
qed

lemma solved_fullyAssigned:
  assumes run: "validRun st sol" and cs: "map coords sol = sortedEmptyCells st"
  shows "fullyAssigned (applyPlacements st sol)"
proof -
  have "board (applyPlacements st sol) ! r ! c \<noteq> EMPTY" if "r < BOARD_SIZE st" "c < BOARD_SIZE st" for r c
  proof (cases "board st ! r ! c = EMPTY")
    case False
    then have "(r, c) \<notin> set (map coords sol)"
      by (simp add: cs sortedEmptyCells_set del: set_map)
    with run False show ?thesis by (simp add: applyPlacements_other del: set_map)
  next
    case True
    with that have "(r, c) \<in> set (map coords sol)"
      by (simp add: cs sortedEmptyCells_set del: set_map)
    then obtain s where in_sol: "(r, c, s) \<in> set sol"
      by (auto simp: coords_def)
    have "distinct (map coords sol)" by (simp add: cs sortedEmptyCells_distinct)
    then have "board (applyPlacements st sol) ! r ! c = s"
      using run in_sol by (simp add: applyPlacements_placed)
    with validRun_symbols[OF run in_sol] show ?thesis by auto
  qed
  then show ?thesis by (simp add: fullyAssigned_iff)
qed

section \<open>Evaluation on the example boards\<close>

lemma wellFormed_emptyBoard4: "wellFormed emptyBoard4"
  by code_simp

lemma solve_emptyBoard4: "solvePuzzle emptyBoard4 = Some (Some emptySolution4, emptySolved4)"
  by code_simp

lemma wellFormed_equalEdgeBoard: "wellFormed equalEdgeBoard"
  by code_simp

lemma solve_equalEdgeBoard:
  "solvePuzzle equalEdgeBoard = Some (Some equalEdgeSolution, equalEdgeSolved)"
  by code_simp

lemma wellFormed_threeSunsBoard6: "wellFormed threeSunsBoard6"
  by code_simp

lemma solve_threeSunsBoard6:
  "solvePuzzle threeSunsBoard6 = Some (Some threeSunsSolution6, threeSunsSolved6)"
  by code_simp

lemma wellFormed_oddBoard: "wellFormed oddBoard"
  by code_simp

lemma solve_oddBoard: "solvePuzzle oddBoard = Some (Some [(0, 2, MOON)], oddBoardSolved)"
  by code_simp

lemma distinct_count_list: "distinct xs \<Longrightarrow> x \<in> set xs \<Longrightarrow> count_list xs x = 1"
  by (induction xs) (auto simp: count_list_0_iff)

lemma solvePuzzle_returns: "solvePuzzle st \<noteq> None"
  using dfs_returns[of 0 "sortedEmptyCells st" st "[]"]
  by (auto simp: solvePuzzle_def split: option.splits)

lemma wellFormed_emptyBoard3: "wellFormed emptyBoard3"
  by code_simp
lemma solve_emptyBoard3: "solvePuzzle emptyBoard3 = Some (None, emptyBoard3)"
  by code_simp

text \<open>The search is exhaustive: where \<^verbatim>\<open>dfs\<close> returns \<^verbatim>\<open>false\<close>, no sequence of
  accepted placements fills the remaining cells.\<close>

lemma dfsTry_false:
  assumes d: "distinct cells" and lt: "i < length cells" and rc: "cells ! i = (row, col)"
    and oc: "openCells cells i st"
    and t: "dfsTry cells i row col symbol st sol = Some (False, st1, sol1)"
  shows "st1 = st \<and> sol1 = sol \<and>
         (isValidPlacement st row col symbol \<longrightarrow>
            (\<exists>st2 sol2. dfs cells (i + 1)
               (setContains st row col symbol, sol @ [(row, col, symbol)]) =
               Some (False, st2, sol2)))"
proof (cases "isValidPlacement st row col symbol")
  case False
  with t show ?thesis by (simp add: dfsTry_def)
next
  case True
  note o = openCells_step[OF d lt rc oc]
  from True t obtain r where r: "dfs cells (i + 1)
      (setContains st row col symbol, sol @ [(row, col, symbol)]) = Some r"
    and br: "backtrack row col r = (False, st1, sol1)"
    by (auto simp: dfsTry_def)
  obtain ok2 st2 sol2 where r2: "r = (ok2, st2, sol2)" by (cases r)
  from br r2 have f: "\<not> ok2" and e: "st1 = setContains st2 row col EMPTY" "sol1 = butlast sol2"
    by (auto simp: backtrack_def split: if_splits)
  from lt have le: "i + 1 \<le> length cells" by simp
  from dfs_shape[OF d le o(1)[of symbol] r[unfolded r2]] f
  have "st2 = setContains st row col symbol" "sol2 = sol @ [(row, col, symbol)]"
    by simp_all
  with e r r2 f setContains_undo[OF o(2) o(3) o(4)] show ?thesis by simp
qed

lemma dfs_false_no_run:
  assumes d: "distinct cells"
  shows "i \<le> length cells \<Longrightarrow> openCells cells i st \<Longrightarrow>
         dfs cells i (st, sol) = Some (False, st', sol') \<Longrightarrow>
         map coords zs = drop i cells \<Longrightarrow> validRun st zs \<Longrightarrow> False"
proof (induction "length cells - i" arbitrary: i st sol st' sol' zs)
  case 0
  then have "i = length cells" by simp
  with "0.prems"(3) show ?case by (simp add: dfs_base)
next
  case (Suc k)
  from Suc.hyps(2) have lt: "i < length cells" by simp
  obtain row col where rc: "cells ! i = (row, col)" by (cases "cells ! i")
  note o = openCells_step[OF d lt rc Suc.prems(2)]
  have dr: "drop i cells = (row, col) # drop (i + 1) cells"
    using lt rc by (metis Cons_nth_drop_Suc Suc_eq_plus1)
  from Suc.prems(4) dr obtain z zs' where zs: "zs = z # zs'" and cz: "coords z = (row, col)"
    and cs': "map coords zs' = drop (i + 1) cells"
    by (cases zs) auto
  obtain symbol where z: "z = (row, col, symbol)"
    using cz by (cases z) (simp add: coords_def)
  from Suc.prems(5) zs z have sy: "symbol = MOON \<or> symbol = SUN"
    and v: "isValidPlacement st row col symbol"
    and run': "validRun (setContains st row col symbol) zs'"
    by simp_all
  have no: False
    if "dfs cells (i + 1) (setContains st row col symbol, sol @ [(row, col, symbol)]) =
        Some (False, st2, sol2)" for st2 sol2
  proof -
    have k: "k = length cells - (i + 1)" using Suc.hyps(2) by simp
    have le: "i + 1 \<le> length cells" using lt by simp
    show False
      by (rule Suc.hyps(1)[OF k le o(1)[of symbol] that cs' run'])
  qed
  from dfs_returns[of i cells st sol] lt Suc.prems(3)
  obtain okM stM solM where m: "dfsTry cells i row col MOON st sol = Some (okM, stM, solM)"
    by (auto simp: dfs_step[OF lt rc] split: option.splits)
  from Suc.prems(3) m have nm: "\<not> okM"
    by (auto simp: dfs_step[OF lt rc] split: if_splits)
  from m nm have m': "dfsTry cells i row col MOON st sol = Some (False, stM, solM)" by simp
  note fm = dfsTry_false[OF d lt rc Suc.prems(2) m']
  from Suc.prems(3) m nm fm
  have s: "dfsTry cells i row col SUN st sol = Some (False, st', sol')"
    by (simp add: dfs_step[OF lt rc])
  note fs = dfsTry_false[OF d lt rc Suc.prems(2) s]
  from sy show ?case
  proof
    assume "symbol = MOON"
    with fm v no show False by blast
  next
    assume "symbol = SUN"
    with fs v no show False by blast
  qed
qed

lemma solvePuzzle_null_no_run:
  assumes "wellFormed st" and "solvePuzzle st = Some (None, st')"
    and "map coords zs = sortedEmptyCells st" and "validRun st zs"
  shows False
proof -
  from assms(2) obtain sol' where
    f: "dfs (sortedEmptyCells st) 0 (st, []) = Some (False, st', sol')"
    by (auto simp: solvePuzzle_def split: option.splits if_splits)
  show False
    by (rule dfs_false_no_run[OF sortedEmptyCells_distinct _ sortedEmptyCells_open[OF assms(1)] f])
      (use assms(3,4) in simp_all)
qed

section \<open>Properties of the solver\<close>

text \<open>
  C1, as amended.  Take a board with consistently sized arrays whose given cells
  hold no three consecutive equal symbols in a row or column and at most half a
  row or column of SUN and of MOON.  If \<^verbatim>\<open>solvePuzzle\<close> returns a solution, then
  the board it leaves has no EMPTY cell, every row and every column holds exactly
  \<open>BOARD_SIZE / 2\<close> SUN and \<open>BOARD_SIZE / 2\<close> MOON, and no three consecutive cells
  of a row or column hold the same symbol.  Nothing is stated about the edges.
\<close>

theorem solution_satisfies_rules:
  assumes "wellFormed st" and "noThreeInARow st" and "withinBalance st"
    and "solvePuzzle st = Some (Some sol, st')"
  shows "fullyAssigned st' \<and> balanced st' \<and> noThreeInARow st'"
proof -
  from solvePuzzle_cases[OF assms(1,4)]
  have cs: "map coords sol = sortedEmptyCells st" and st': "st' = applyPlacements st sol"
    and run: "validRun st sol"
    by auto
  from validRun_invariants[OF assms(1) run assms(2,3)]
  have n: "noThreeInARow st'" and w: "withinBalance st'" by (simp_all add: st')
  have f: "fullyAssigned st'" unfolding st' by (rule solved_fullyAssigned[OF run cs])
  from f w have "balanced st'" by (rule balanced_final)
  with f n show ?thesis by simp
qed

theorem solution_satisfies_rules_witness:
  "wellFormed emptyBoard4 \<and> noThreeInARow emptyBoard4 \<and> withinBalance emptyBoard4 \<and>
   solvePuzzle emptyBoard4 = Some (Some emptySolution4, emptySolved4) \<and>
   fullyAssigned emptySolved4 \<and> balanced emptySolved4 \<and> noThreeInARow emptySolved4"
proof -
  have n: "noThreeInARow emptyBoard4" by code_simp
  have w: "withinBalance emptyBoard4" by code_simp
  from solution_satisfies_rules[OF wellFormed_emptyBoard4 n w solve_emptyBoard4]
  show ?thesis using wellFormed_emptyBoard4 n w solve_emptyBoard4 by simp
qed

text \<open>
  The claim without the condition on the given cells fails: on the 6 by 6 board
  whose first column is given as SUN, MOON, MOON, MOON, SUN, SUN a solution is
  returned and the board has three MOON in a column.
\<close>

theorem given_three_moons_counterexample:
  "solvePuzzle threeMoonsBoard6 = Some (Some threeMoonsSolution6, threeMoonsSolved6) \<and>
   \<not> noThreeInARow threeMoonsSolved6"
  by code_simp

text \<open>
  C2.  On the 4 by 4 board with SUN at \<open>(0,0)\<close> and an EQUAL edge between \<open>(0,0)\<close>
  and \<open>(0,1)\<close>, \<^verbatim>\<open>isValidPlacement\<close> accepts MOON at the EMPTY cell \<open>(0,1)\<close>:
  \<^verbatim>\<open>checkEdgeConstraints\<close> reads the edge to the right of the target cell only, so
  the EQUAL edge to its left neighbour is not examined.
\<close>

theorem left_neighbour_edge_unchecked:
  "board equalEdgeBoard ! 0 ! 0 = SUN \<and> horizontal equalEdgeBoard ! 0 ! 0 = EQUAL \<and>
   board equalEdgeBoard ! 0 ! 1 = EMPTY \<and> isValidPlacement equalEdgeBoard 0 1 MOON"
  by code_simp

text \<open>
  C3.  When \<^verbatim>\<open>solvePuzzle\<close> returns \<^verbatim>\<open>null\<close> on a board with consistently sized
  arrays, the solver state after the call, and so the board, equals the state
  before the call.  The same holds at every level of the search: a call of
  \<^verbatim>\<open>dfs\<close> that returns \<^verbatim>\<open>false\<close> hands back the board and the list of
  placements it was given, every placement made below it having been undone
  (here the cells of the list are distinct and, from \<open>index\<close> on, EMPTY, as they
  are in every call that \<^verbatim>\<open>solvePuzzle\<close> causes).
\<close>

theorem failed_solve_restores_board:
  "(wellFormed st \<and> solvePuzzle st = Some (None, st') \<longrightarrow> st' = st) \<and>
   (distinct emptyCells \<and> index \<le> length emptyCells \<and> openCells emptyCells index s \<and>
      dfs emptyCells index (s, solution) = Some (False, s', solution') \<longrightarrow>
    s' = s \<and> solution' = solution)"
proof -
  have "st' = st" if "wellFormed st" "solvePuzzle st = Some (None, st')"
    using solvePuzzle_cases[OF that] by simp
  moreover have "s' = s \<and> solution' = solution"
    if "distinct emptyCells" "index \<le> length emptyCells" "openCells emptyCells index s"
      "dfs emptyCells index (s, solution) = Some (False, s', solution')"
    using dfs_shape[OF that] by simp
  ultimately show ?thesis by blast
qed

theorem failed_solve_restores_board_witness:
  "wellFormed threeSunsBoard4 \<and> solvePuzzle threeSunsBoard4 = Some (None, threeSunsBoard4) \<and>
   distinct (sortedEmptyCells threeSunsBoard4) \<and>
   openCells (sortedEmptyCells threeSunsBoard4) 0 threeSunsBoard4 \<and>
   dfs (sortedEmptyCells threeSunsBoard4) 0 (threeSunsBoard4, []) =
     Some (False, threeSunsBoard4, [])"
proof -
  let ?B = threeSunsBoard4
  let ?r = "the (dfs (sortedEmptyCells ?B) 0 (?B, []))"
  have wf: "wellFormed ?B" by code_simp
  have s: "solvePuzzle ?B = Some (None, snd (the (solvePuzzle ?B)))"
    by code_simp
  have d: "distinct (sortedEmptyCells ?B)" by code_simp
  have l: "(0::nat) \<le> length (sortedEmptyCells ?B)" by simp
  have oc: "openCells (sortedEmptyCells ?B) 0 ?B" by code_simp
  have f: "dfs (sortedEmptyCells ?B) 0 (?B, []) = Some (False, fst (snd ?r), snd (snd ?r))"
    by code_simp
  note t = failed_solve_restores_board[of ?B "snd (the (solvePuzzle ?B))" "sortedEmptyCells ?B" 0
      ?B "[]" "fst (snd ?r)" "snd (snd ?r)"]
  from t wf s have e1: "snd (the (solvePuzzle ?B)) = ?B" by blast
  from t d l oc f have e2: "fst (snd ?r) = ?B" "snd (snd ?r) = []" by blast+
  have s': "solvePuzzle ?B = Some (None, ?B)" by (rule s[unfolded e1])
  have f': "dfs (sortedEmptyCells ?B) 0 (?B, []) = Some (False, ?B, [])"
    by (rule f[unfolded e2])
  from wf s' d oc f' show ?thesis by blast
qed

text \<open>
  C4.  When \<^verbatim>\<open>solvePuzzle\<close> returns a solution, the coordinates of its placements
  are the sorted list of EMPTY cells of the input board: in ascending order of the
  number of EMPTY neighbours counted on the input board, cells with equal counts
  in row-major order; every cell that is EMPTY on the input board occurs, none
  twice; every symbol is MOON or SUN, and wherever the solution holds SUN, MOON was
  either refused there or placed and abandoned after the search below it failed.
\<close>

theorem solution_in_heuristic_order:
  assumes "wellFormed st" and "solvePuzzle st = Some (Some sol, st')"
  shows "map coords sol = sortedEmptyCells st \<and>
         sorted_wrt (heuristicBefore st) (map coords sol) \<and>
         distinct (map coords sol) \<and>
         set (map coords sol) =
           {(r, c). r < BOARD_SIZE st \<and> c < BOARD_SIZE st \<and> board st ! r ! c = EMPTY} \<and>
         (\<forall>p\<in>set sol. snd (snd p) = MOON \<or> snd (snd p) = SUN) \<and>
         moonFirst (sortedEmptyCells st) 0 (st, []) sol"
proof -
  from solvePuzzle_cases[OF assms]
  have cs: "map coords sol = sortedEmptyCells st"
    and run: "validRun st sol"
    and mf: "moonFirst (sortedEmptyCells st) 0 (st, []) sol"
    by auto
  have "snd (snd p) = MOON \<or> snd (snd p) = SUN" if "p \<in> set sol" for p
    using validRun_symbols[OF run, of "fst p" "fst (snd p)" "snd (snd p)"] that by simp
  then have "\<forall>p\<in>set sol. snd (snd p) = MOON \<or> snd (snd p) = SUN" by blast
  then show ?thesis
    using cs mf sortedEmptyCells_heuristic[of st] sortedEmptyCells_distinct[of st]
      sortedEmptyCells_set[of st]
    by (simp del: set_map)
qed

theorem solution_in_heuristic_order_witness:
  "wellFormed emptyBoard4 \<and>
   solvePuzzle emptyBoard4 = Some (Some emptySolution4, emptySolved4) \<and>
   map coords emptySolution4 = sortedEmptyCells emptyBoard4 \<and>
   sorted_wrt (heuristicBefore emptyBoard4) (map coords emptySolution4) \<and>
   distinct (map coords emptySolution4) \<and>
   moonFirst (sortedEmptyCells emptyBoard4) 0 (emptyBoard4, []) emptySolution4"
  using solution_in_heuristic_order[OF wellFormed_emptyBoard4 solve_emptyBoard4]
    wellFormed_emptyBoard4 solve_emptyBoard4
  by blast

text \<open>
  C5.  The two three-in-a-row checks of \<^verbatim>\<open>isValidPlacement\<close> together hold
  exactly when one of the windows containing the target cell (two before, two
  after, one on each side; in the row or in the column; inside the board) holds
  the candidate symbol twice, and then \<^verbatim>\<open>isValidPlacement\<close> rejects.
\<close>

theorem three_in_row_windows:
  "((checkThreeInRowHorizontal st row col symbol \<or> checkThreeInRowVertical st row col symbol)
      \<longleftrightarrow> threeInRowWindows st row col symbol) \<and>
   (threeInRowWindows st row col symbol \<longrightarrow> \<not> isValidPlacement st row col symbol)"
proof -
  have h: "checkThreeInRowHorizontal st row col symbol \<longleftrightarrow>
     (2 \<le> col \<and> board st ! row ! (col - 2) = symbol \<and> board st ! row ! (col - 1) = symbol) \<or>
     (col + 2 < BOARD_SIZE st \<and>
        board st ! row ! (col + 1) = symbol \<and> board st ! row ! (col + 2) = symbol) \<or>
     (1 \<le> col \<and> col + 1 < BOARD_SIZE st \<and>
        board st ! row ! (col - 1) = symbol \<and> board st ! row ! (col + 1) = symbol)"
    unfolding checkThreeInRowHorizontal_def by (simp; linarith)
  have v: "checkThreeInRowVertical st row col symbol \<longleftrightarrow>
     (2 \<le> row \<and> board st ! (row - 2) ! col = symbol \<and> board st ! (row - 1) ! col = symbol) \<or>
     (row + 2 < BOARD_SIZE st \<and>
        board st ! (row + 1) ! col = symbol \<and> board st ! (row + 2) ! col = symbol) \<or>
     (1 \<le> row \<and> row + 1 < BOARD_SIZE st \<and>
        board st ! (row - 1) ! col = symbol \<and> board st ! (row + 1) ! col = symbol)"
    unfolding checkThreeInRowVertical_def by (simp; linarith)
  have e: "(checkThreeInRowHorizontal st row col symbol \<or> checkThreeInRowVertical st row col symbol)
      \<longleftrightarrow> threeInRowWindows st row col symbol"
    unfolding h v threeInRowWindows_def by blast
  then show ?thesis by (auto simp: isValidPlacement_def)
qed

theorem three_in_row_windows_witness:
  "threeInRowWindows threeSunsBoard4 0 3 SUN \<and> \<not> isValidPlacement threeSunsBoard4 0 3 SUN"
proof -
  have w: "threeInRowWindows threeSunsBoard4 0 3 SUN" by code_simp
  with three_in_row_windows[of threeSunsBoard4 0 3 SUN] show ?thesis by simp
qed

text \<open>
  C6.  When \<^verbatim>\<open>solvePuzzle\<close> returns a solution, every cell of the board that was
  not EMPTY on the input keeps its symbol, and every cell that was EMPTY on the
  input occurs exactly once among the coordinates of the solution.
\<close>

theorem solution_conserves_cells:
  assumes "wellFormed st" and "solvePuzzle st = Some (Some sol, st')"
    and "r < BOARD_SIZE st" and "c < BOARD_SIZE st"
  shows "(board st ! r ! c \<noteq> EMPTY \<longrightarrow> board st' ! r ! c = board st ! r ! c) \<and>
         (board st ! r ! c = EMPTY \<longrightarrow> count_list (map coords sol) (r, c) = 1)"
proof -
  from solvePuzzle_cases[OF assms(1,2)]
  have cs: "map coords sol = sortedEmptyCells st" and st': "st' = applyPlacements st sol"
    and run: "validRun st sol"
    by auto
  have "board st' ! r ! c = board st ! r ! c" if "board st ! r ! c \<noteq> EMPTY"
  proof -
    from that have "(r, c) \<notin> set (map coords sol)"
      by (simp add: cs sortedEmptyCells_set del: set_map)
    with run show ?thesis unfolding st' by (rule applyPlacements_other)
  qed
  moreover have "count_list (map coords sol) (r, c) = 1" if "board st ! r ! c = EMPTY"
  proof -
    from that assms(3,4) have "(r, c) \<in> set (map coords sol)"
      by (simp add: cs sortedEmptyCells_set del: set_map)
    moreover have "distinct (map coords sol)" by (simp add: cs sortedEmptyCells_distinct)
    ultimately show ?thesis by (simp add: distinct_count_list del: set_map)
  qed
  ultimately show ?thesis by blast
qed

theorem solution_conserves_cells_witness:
  "wellFormed equalEdgeBoard \<and>
   solvePuzzle equalEdgeBoard = Some (Some equalEdgeSolution, equalEdgeSolved) \<and>
   board equalEdgeBoard ! 0 ! 0 = SUN \<and> board equalEdgeSolved ! 0 ! 0 = SUN \<and>
   board equalEdgeBoard ! 0 ! 1 = EMPTY \<and> count_list (map coords equalEdgeSolution) (0, 1) = 1"
proof -
  have a: "board equalEdgeBoard ! 0 ! 0 = SUN" by code_simp
  have b: "board equalEdgeBoard ! 0 ! 1 = EMPTY" by code_simp
  have n: "(0::nat) < BOARD_SIZE equalEdgeBoard" "(1::nat) < BOARD_SIZE equalEdgeBoard"
    by code_simp+
  from solution_conserves_cells[OF wellFormed_equalEdgeBoard solve_equalEdgeBoard n(1) n(1)]
    solution_conserves_cells[OF wellFormed_equalEdgeBoard solve_equalEdgeBoard n(1) n(2)]
  show ?thesis using a b wellFormed_equalEdgeBoard solve_equalEdgeBoard by simp
qed

text \<open>
  C7, as amended.  \<^verbatim>\<open>solvePuzzle\<close> makes no structural check and has no error
  result: on every board with consistently sized arrays, of even or odd size, the
  outcome is that of the search alone.  If some sequence of placements on the
  sorted EMPTY cells is accepted step by step by \<^verbatim>\<open>isValidPlacement\<close>, a
  solution is returned, and it is such a sequence; \<^verbatim>\<open>null\<close> is returned, with
  the board as it was, when no such sequence exists.
\<close>

theorem solve_without_validation:
  assumes "wellFormed st"
  shows "((\<exists>zs. map coords zs = sortedEmptyCells st \<and> validRun st zs) \<longrightarrow>
            (\<exists>sol. solvePuzzle st = Some (Some sol, applyPlacements st sol) \<and>
                   map coords sol = sortedEmptyCells st \<and> validRun st sol)) \<and>
         ((\<forall>zs. map coords zs = sortedEmptyCells st \<longrightarrow> \<not> validRun st zs) \<longrightarrow>
            solvePuzzle st = Some (None, st))"
proof -
  from solvePuzzle_returns[of st] obtain r st' where s: "solvePuzzle st = Some (r, st')"
    by (cases "solvePuzzle st") auto
  note c = solvePuzzle_cases[OF assms s]
  show ?thesis
  proof (cases r)
    case None
    with c s have n: "solvePuzzle st = Some (None, st)" by simp
    with solvePuzzle_null_no_run[OF assms n] show ?thesis by blast
  next
    case (Some sol)
    with c s have "solvePuzzle st = Some (Some sol, applyPlacements st sol)"
      "map coords sol = sortedEmptyCells st" "validRun st sol"
      by simp_all
    then show ?thesis by blast
  qed
qed

theorem solve_without_validation_witness:
  "wellFormed oddBoard \<and> odd (BOARD_SIZE oddBoard) \<and>
   map coords [(0, 2, MOON)] = sortedEmptyCells oddBoard \<and>
   validRun oddBoard [(0, 2, MOON)] \<and>
   solvePuzzle oddBoard = Some (Some [(0, 2, MOON)], applyPlacements oddBoard [(0, 2, MOON)]) \<and>
   wellFormed emptyBoard3 \<and> odd (BOARD_SIZE emptyBoard3) \<and>
   solvePuzzle emptyBoard3 = Some (None, emptyBoard3)"
proof -
  have o: "odd (BOARD_SIZE oddBoard)" "odd (BOARD_SIZE emptyBoard3)" by code_simp+
  have c: "map coords [(0, 2, MOON)] = sortedEmptyCells oddBoard" by code_simp
  have v: "validRun oddBoard [(0, 2, MOON)]" by code_simp
  from solve_without_validation[OF wellFormed_oddBoard] c v
  obtain sol where sol: "solvePuzzle oddBoard = Some (Some sol, applyPlacements oddBoard sol)"
    by blast
  have "sol = [(0, 2, MOON)]" using sol solve_oddBoard by simp
  with sol have a: "solvePuzzle oddBoard =
      Some (Some [(0, 2, MOON)], applyPlacements oddBoard [(0, 2, MOON)])"
    by simp
  have n: "\<forall>zs. map coords zs = sortedEmptyCells emptyBoard3 \<longrightarrow> \<not> validRun emptyBoard3 zs"
    using solvePuzzle_null_no_run[OF wellFormed_emptyBoard3 solve_emptyBoard3] by blast
  with solve_without_validation[OF wellFormed_emptyBoard3]
  have b: "solvePuzzle emptyBoard3 = Some (None, emptyBoard3)" by blast
  from wellFormed_oddBoard o c v a wellFormed_emptyBoard3 b show ?thesis by blast
qed

text \<open>On a board of size 3 a solution is returned, after a placement.\<close>

theorem odd_board_solved_counterexample:
  "odd (BOARD_SIZE oddBoard) \<and>
   solvePuzzle oddBoard = Some (Some [(0, 2, MOON)], oddBoardSolved)"
proof -
  have "odd (BOARD_SIZE oddBoard)" by code_simp
  with solve_oddBoard show ?thesis by blast
qed

text \<open>
  C8.  On the 4 by 4 board whose only given cell is SUN at \<open>(0,0)\<close> and whose only
  edge is EQUAL between \<open>(0,0)\<close> and \<open>(0,1)\<close>, \<^verbatim>\<open>solvePuzzle\<close> returns a solution
  whose first placement is MOON at \<open>(0,1)\<close>.
\<close>

theorem equal_edge_scenario_result:
  "board equalEdgeBoard ! 0 ! 0 = SUN \<and> horizontal equalEdgeBoard ! 0 ! 0 = EQUAL \<and>
   solvePuzzle equalEdgeBoard = Some (Some equalEdgeSolution, equalEdgeSolved) \<and>
   hd equalEdgeSolution = (0, 1, MOON) \<and> board equalEdgeSolved ! 0 ! 1 = MOON"
proof -
  have "board equalEdgeBoard ! 0 ! 0 = SUN" "horizontal equalEdgeBoard ! 0 ! 0 = EQUAL"
    "hd equalEdgeSolution = (0, 1, MOON)" "board equalEdgeSolved ! 0 ! 1 = MOON"
    by code_simp+
  with solve_equalEdgeBoard show ?thesis by blast
qed

text \<open>
  C9, as amended.  \<^verbatim>\<open>solvePuzzle\<close> does not examine the given cells.  On a board
  with consistently sized arrays whose given cells hold three consecutive SUN in a
  row, every solution it returns leaves these three cells SUN, so the board it
  leaves has three equal symbols in a row.
\<close>

theorem given_three_suns_stay:
  assumes "wellFormed st" and "row < BOARD_SIZE st" and "col + 2 < BOARD_SIZE st"
    and "board st ! row ! col = SUN" and "board st ! row ! (col + 1) = SUN"
    and "board st ! row ! (col + 2) = SUN"
    and "solvePuzzle st = Some (Some sol, st')"
  shows "board st' ! row ! col = SUN \<and> board st' ! row ! (col + 1) = SUN \<and>
         board st' ! row ! (col + 2) = SUN \<and> \<not> noThreeInARow st'"
proof -
  from solvePuzzle_cases[OF assms(1,7)]
  have cs: "map coords sol = sortedEmptyCells st" and st': "st' = applyPlacements st sol"
    and run: "validRun st sol"
    by auto
  have keep: "board st' ! row ! k = SUN" if "board st ! row ! k = SUN" for k
  proof -
    from that have "(row, k) \<notin> set (map coords sol)"
      by (simp add: cs sortedEmptyCells_set del: set_map)
    with run that show ?thesis unfolding st' by (simp add: applyPlacements_other del: set_map)
  qed
  have k: "board st' ! row ! col = SUN" "board st' ! row ! (col + 1) = SUN"
    "board st' ! row ! (col + 2) = SUN"
    using keep assms(4,5,6) by simp_all
  have t: "threeEqual (board st' ! row ! col) (board st' ! row ! (col + 1))
      (board st' ! row ! (col + 2))"
    using k by (simp add: threeEqual_def)
  have "row < BOARD_SIZE st'" "col + 2 < BOARD_SIZE st'"
    using assms(2,3) by (simp_all add: st')
  with t have "\<not> noThreeInARow st'"
    unfolding noThreeInARow_iff by blast
  with k show ?thesis by simp
qed

theorem given_three_suns_stay_witness:
  "wellFormed threeSunsBoard6 \<and>
   board threeSunsBoard6 ! 0 ! 1 = SUN \<and> board threeSunsBoard6 ! 0 ! 2 = SUN \<and>
   board threeSunsBoard6 ! 0 ! 3 = SUN \<and>
   solvePuzzle threeSunsBoard6 = Some (Some threeSunsSolution6, threeSunsSolved6) \<and>
   \<not> noThreeInARow threeSunsSolved6"
proof -
  have n: "(0::nat) < BOARD_SIZE threeSunsBoard6" "(1::nat) + 2 < BOARD_SIZE threeSunsBoard6"
    by code_simp+
  have a: "board threeSunsBoard6 ! 0 ! 1 = SUN" "board threeSunsBoard6 ! 0 ! (1 + 1) = SUN"
    "board threeSunsBoard6 ! 0 ! (1 + 2) = SUN"
    by code_simp+
  have b: "board threeSunsBoard6 ! 0 ! 2 = SUN" "board threeSunsBoard6 ! 0 ! 3 = SUN"
    by code_simp+
  from given_three_suns_stay[OF wellFormed_threeSunsBoard6 n a solve_threeSunsBoard6]
  show ?thesis using wellFormed_threeSunsBoard6 a(1) b solve_threeSunsBoard6 by simp
qed

text \<open>
  On the 6 by 6 board whose first row is given as MOON, SUN, SUN, SUN, MOON, MOON
  a solution is returned.
\<close>

theorem given_three_suns_counterexample:
  "board threeSunsBoard6 ! 0 ! 1 = SUN \<and> board threeSunsBoard6 ! 0 ! 2 = SUN \<and>
   board threeSunsBoard6 ! 0 ! 3 = SUN \<and>
   solvePuzzle threeSunsBoard6 = Some (Some threeSunsSolution6, threeSunsSolved6)"
proof -
  have "board threeSunsBoard6 ! 0 ! 1 = SUN" "board threeSunsBoard6 ! 0 ! 2 = SUN"
    "board threeSunsBoard6 ! 0 ! 3 = SUN"
    by code_simp+
  with solve_threeSunsBoard6 show ?thesis by blast
qed

text \<open>
  C10.  \<^verbatim>\<open>dfs\<close> recurses on \<open>index + 1\<close> only, below the length of the list of
  EMPTY cells (the termination order of its definition), makes at most the MOON and
  the SUN attempt at each level, and returns at \<open>index = length\<close>: started at any
  index up to the length it returns a value, and \<^verbatim>\<open>solvePuzzle\<close> returns a
  solution or \<^verbatim>\<open>null\<close> on every board.
\<close>

theorem solve_returns:
  assumes "wellFormed st" and "index \<le> length emptyCells"
  shows "(\<exists>r. dfs emptyCells index (st, solution) = Some r) \<and>
         (\<exists>result st'. solvePuzzle st = Some (result, st'))"
proof -
  from dfs_returns[OF assms(2), of st solution]
  have "\<exists>r. dfs emptyCells index (st, solution) = Some r" by blast
  moreover from solvePuzzle_returns[of st]
  have "\<exists>result st'. solvePuzzle st = Some (result, st')"
    by (cases "solvePuzzle st") auto
  ultimately show ?thesis by blast
qed

theorem solve_returns_witness:
  "wellFormed emptyBoard4 \<and> (0::nat) \<le> length (sortedEmptyCells emptyBoard4) \<and>
   (\<exists>r. dfs (sortedEmptyCells emptyBoard4) 0 (emptyBoard4, []) = Some r) \<and>
   (\<exists>result st'. solvePuzzle emptyBoard4 = Some (result, st'))"
  using solve_returns[OF wellFormed_emptyBoard4, of 0 "sortedEmptyCells emptyBoard4" "[]"]
    wellFormed_emptyBoard4
  by simp

end
